theory Spec2Isabelle
  imports Main "HOL-Library.Word"
begin

unbundle bit_operations_syntax

section \<open>Outcomes of a C++ call\<close>

text \<open>
  The parser of \<^verbatim>\<open>src/main.cpp\<close> works on a \<^verbatim>\<open>std::vector<unsigned char>\<close>
  with unchecked \<^verbatim>\<open>operator[]\<close> and iterator arithmetic. What a call can do is
  written out as a value:
  \<^item> \<open>Returns v\<close>: the call returns \<open>v\<close>;
  \<^item> \<open>OutOfRange\<close>: the call indexes a vector or array outside its bounds, or forms a
    range past the end of a vector (undefined behaviour in C++: nothing is checked and
    nothing is raised);
  \<^item> \<open>Terminate\<close>: the call executes \<^verbatim>\<open>throw;\<close> with no exception being handled,
    which calls \<^verbatim>\<open>std::terminate\<close>;
  \<^item> \<open>Fails e\<close>: the call reports the typed error \<open>e\<close>. The error kinds are those the
    specification names in its section 7. No statement of the source produces one; the
    constructor is here so that "fails with the typed error e" can be written down.
\<close>

type_synonym u8 = "8 word"
type_synonym u16 = "16 word"

datatype error =
  UnexpectedEof
| InvalidMarkerPrefix nat
| UnknownDensityUnit
| InvalidHuffmanTable

datatype 'a outcome = Returns 'a | Fails error | OutOfRange | Terminate

fun obind :: "'a outcome \<Rightarrow> ('a \<Rightarrow> 'b outcome) \<Rightarrow> 'b outcome" where
  "obind (Returns v) f = f v"
| "obind (Fails e) f = Fails e"
| "obind OutOfRange f = OutOfRange"
| "obind Terminate f = Terminate"

text \<open>
  Three tests on an outcome: \<open>returned\<close> holds of a returned value only; \<open>silent\<close> of
  a returned value or an out-of-range access, so of neither a typed error nor a call of
  \<^verbatim>\<open>std::terminate\<close>; \<open>untyped\<close> of everything but a typed error.
\<close>

definition returned :: "'a outcome \<Rightarrow> bool" where
  "returned x = (case x of Returns v \<Rightarrow> True | Fails e \<Rightarrow> False
     | OutOfRange \<Rightarrow> False | Terminate \<Rightarrow> False)"

definition silent :: "'a outcome \<Rightarrow> bool" where
  "silent x = (case x of Returns v \<Rightarrow> True | OutOfRange \<Rightarrow> True
     | Fails e \<Rightarrow> False | Terminate \<Rightarrow> False)"

definition untyped :: "'a outcome \<Rightarrow> bool" where
  "untyped x = (case x of Fails e \<Rightarrow> False | Returns v \<Rightarrow> True
     | OutOfRange \<Rightarrow> True | Terminate \<Rightarrow> True)"

lemma obind_Returns_iff:
  "obind m f = Returns y \<longleftrightarrow> (\<exists>v. m = Returns v \<and> f v = Returns y)"
  by (cases m) auto

text \<open>\<^verbatim>\<open>v[i]\<close> on a vector or array: defined only for \<open>i < v.size()\<close>.\<close>

definition at :: "'a list \<Rightarrow> nat \<Rightarrow> 'a outcome" where
  "at v i = (if i < length v then Returns (v ! i) else OutOfRange)"

text \<open>
  The iterator range \<^verbatim>\<open>[v.begin() + i, v.begin() + i + n)\<close>: defined only when it
  lies inside the vector.
\<close>

definition range_of :: "'a list \<Rightarrow> nat \<Rightarrow> nat \<Rightarrow> 'a list outcome" where
  "range_of v i n = (if i + n \<le> length v then Returns (take n (drop i v)) else OutOfRange)"

section \<open>Huffman tables\<close>

record HuffmanCode =
  length_hc :: u8
  code :: u16
  "value" :: u8

record HuffmanTable =
  codes :: "HuffmanCode list"

text \<open>
  The inner loop of \<^verbatim>\<open>make_code_table\<close>:
  \<^verbatim>\<open>while (size > current_size) { code <<= 1; current_size += 1; }\<close>
  on an \<^verbatim>\<open>unsigned short\<close> code (the shift drops the bits above bit 15) and an
  \<^verbatim>\<open>unsigned char\<close> current size.
\<close>

function carry :: "u8 \<Rightarrow> u16 \<Rightarrow> u8 \<Rightarrow> u16 \<times> u8" where
  "carry sz c current_size =
     (if sz > current_size then carry sz (push_bit 1 c) (current_size + 1)
      else (c, current_size))"
  by pat_completeness auto
termination
proof (relation "measure (\<lambda>(sz, c, current_size). unat sz - unat current_size)")
  show "wf (measure (\<lambda>(sz, c, current_size). unat sz - unat current_size))"
    by simp
next
  fix sz :: u8 and c :: u16 and current_size :: u8
  assume lt: "current_size < sz"
  then have below: "unat current_size < unat sz"
    by (simp add: word_less_nat_alt)
  moreover have "unat sz < 256"
    using unsigned_less [of sz, where ?'a = nat] by simp
  ultimately have "unat current_size + 1 < 256"
    by simp
  then have "unat (current_size + 1) = unat current_size + 1"
    by (simp add: unat_word_ariths)
  with below show "((sz, push_bit 1 c, current_size + 1), (sz, c, current_size))
      \<in> measure (\<lambda>(sz, c, current_size). unat sz - unat current_size)"
    by simp
qed

declare carry.simps [simp del]

text \<open>
  The \<^verbatim>\<open>for (unsigned char size: sizes)\<close> loop of \<^verbatim>\<open>make_code_table\<close>, with its
  \<^verbatim>\<open>break\<close>: the code is pushed first, then the loop stops if the current size is
  above 16 or the code is \<^verbatim>\<open>0xffff\<close>, and otherwise the code is incremented.
\<close>

fun code_loop :: "u8 list \<Rightarrow> u16 \<Rightarrow> u8 \<Rightarrow> u16 list \<Rightarrow> u16 list" where
  "code_loop [] c current_size code_table = code_table"
| "code_loop (sz # sizes) c current_size code_table =
     (case carry sz c current_size of (c', current_size') \<Rightarrow>
        if current_size' > 16 \<or> c' = 0xffff then code_table @ [c']
        else code_loop sizes (c' + 1) current_size' (code_table @ [c']))"

text \<open>
  \<^verbatim>\<open>make_code_table\<close> reads \<^verbatim>\<open>sizes[0]\<close> before the loop, whatever the size of the
  vector.
\<close>

definition make_code_table :: "u8 list \<Rightarrow> u16 list outcome" where
  "make_code_table sizes =
     obind (at sizes 0) (\<lambda>current_size. Returns (code_loop sizes 0 current_size []))"

text \<open>
  The first loop nest of \<^verbatim>\<open>from_size_data\<close>: \<^verbatim>\<open>size_data[i]\<close> copies of \<open>i + 1\<close>,
  for \<open>i\<close> from 0 up to the size of the array (16 in the source).
\<close>

definition expand_lengths :: "u8 list \<Rightarrow> u8 list" where
  "expand_lengths size_data =
     concat (map (\<lambda>i. replicate (unat (size_data ! i)) (of_nat (i + 1))) [0..<length size_data])"

text \<open>
  The pairing loop of \<^verbatim>\<open>from_size_data\<close>, for the indices still to visit: it reads
  \<^verbatim>\<open>codes_length[i]\<close>, \<^verbatim>\<open>code_table[i]\<close> and \<^verbatim>\<open>data_area[i]\<close>.
\<close>

fun pair_loop :: "u8 list \<Rightarrow> u16 list \<Rightarrow> u8 list \<Rightarrow> nat list \<Rightarrow> HuffmanCode list
    \<Rightarrow> HuffmanCode list outcome" where
  "pair_loop codes_length code_table data_area [] huffman_codes = Returns huffman_codes"
| "pair_loop codes_length code_table data_area (i # is) huffman_codes =
     obind (at codes_length i) (\<lambda>l.
     obind (at code_table i) (\<lambda>c.
     obind (at data_area i) (\<lambda>v.
       pair_loop codes_length code_table data_area is
         (huffman_codes @ [\<lparr>length_hc = l, code = c, value = v\<rparr>]))))"

definition from_size_data :: "u8 list \<Rightarrow> u8 list \<Rightarrow> HuffmanTable outcome" where
  "from_size_data size_data data_area =
     (let codes_length = expand_lengths size_data in
      obind (make_code_table codes_length) (\<lambda>code_table.
      obind (pair_loop codes_length code_table data_area [0..<length data_area] [])
        (\<lambda>huffman_codes. Returns \<lparr>codes = huffman_codes\<rparr>)))"

section \<open>The data of the parser\<close>

text \<open>
  \<^verbatim>\<open>enum class DensityUnit {NoUnit, PixelPerInch, PixelPerCm}\<close> has the underlying type
  \<^verbatim>\<open>int\<close>, so the cast \<^verbatim>\<open>(DensityUnit) raw_data[index]\<close> is defined for every byte:
  the bytes 0, 1 and 2 give the three enumerators, and any other byte gives a value of
  the enumeration type that equals none of them, written \<open>Unnamed\<close> here.
\<close>

datatype DensityUnit = NoUnit | PixelPerInch | PixelPerCm | Unnamed u8

definition density_unit_cast :: "u8 \<Rightarrow> DensityUnit" where
  "density_unit_cast x =
     (if x = 0 then NoUnit else if x = 1 then PixelPerInch
      else if x = 2 then PixelPerCm else Unnamed x)"

record RGB =
  r :: u8
  g :: u8
  b :: u8

record JFIFVersion =
  major :: u8
  minor :: u8

record JFIFData =
  version :: JFIFVersion
  density_unit :: DensityUnit
  x_density :: u16
  y_density :: u16
  x_thumbnail :: u8
  y_thumbnail :: u8
  thumbnail_data :: "RGB list"

record QuantizationTable =
  data :: "u16 list"

text \<open>
  \<^verbatim>\<open>JPEGEncoded\<close>, the result of \<^verbatim>\<open>parse\<close>. Its fields are the local variables of
  \<^verbatim>\<open>parse\<close>, so the record is also the state of the parsing loop. The local
  \<^verbatim>\<open>JFIFData jfif_data\<close> is declared without an initialiser: until an APP0 segment
  assigns it, it holds nothing definite, which is \<open>None\<close> here.
\<close>

record JPEGEncoded =
  metadata :: "JFIFData option"
  q_tables :: "QuantizationTable list"
  q_tables_nbr :: u8
  huffman_ac_tables :: "HuffmanTable list"
  huffman_dc_tables :: "HuffmanTable list"

text \<open>
  The members of \<^verbatim>\<open>JPEGParser\<close>. The index is an \<^verbatim>\<open>unsigned long long\<close>; it is a
  natural number here, since no buffer has \<open>2 ^ 64\<close> bytes. The one place where the
  source relies on the wrap-around of the index is the skip \<^verbatim>\<open>index += length - 2\<close>
  with a length below 2, written out in \<open>dispatch\<close>.
\<close>

record JPEGParser =
  raw_data :: "u8 list"
  index :: nat

text \<open>\<^verbatim>\<open>a[i] = x\<close> on a \<^verbatim>\<open>std::array\<close>: defined only for \<open>i\<close> below its size.\<close>

definition store :: "'a list \<Rightarrow> nat \<Rightarrow> 'a \<Rightarrow> 'a list outcome" where
  "store a i x = (if i < length a then Returns (a[i := x]) else OutOfRange)"

section \<open>Segment decoders\<close>

text \<open>
  Modelled from the spec: \<^verbatim>\<open>u8_to_u16\<close> is declared in \<^verbatim>\<open>utils.h\<close>, which is not
  among the sources. The specification reads the two densities as big-endian 16-bit
  values, as the source itself does for the segment length.
\<close>

definition u8_to_u16 :: "u8 \<Rightarrow> u8 \<Rightarrow> u16" where
  "u8_to_u16 hi lo = push_bit 8 (ucast hi) + ucast lo"

text \<open>
  The thumbnail loop of \<^verbatim>\<open>parse_jfif_data\<close>, for the values of \<open>i\<close> still to visit:
  it reads \<^verbatim>\<open>raw_data[i]\<close>, \<^verbatim>\<open>raw_data[i+1]\<close> and \<^verbatim>\<open>raw_data[i+2]\<close>.
\<close>

fun thumbnail_loop :: "u8 list \<Rightarrow> nat list \<Rightarrow> RGB list \<Rightarrow> RGB list outcome" where
  "thumbnail_loop raw [] thumbnail = Returns thumbnail"
| "thumbnail_loop raw (i # is) thumbnail =
     obind (at raw i) (\<lambda>rv.
     obind (at raw (i + 1)) (\<lambda>gv.
     obind (at raw (i + 2)) (\<lambda>bv.
       thumbnail_loop raw is (thumbnail @ [\<lparr>r = rv, g = gv, b = bv\<rparr>]))))"

text \<open>
  The thumbnail as the specification words it, for comparison with the loop above:
  width times height RGB triples taken from the bytes that start at offset 0 of the
  buffer, so that pixel \<open>i\<close> is made of the three bytes \<open>3 * i\<close>, \<open>3 * i + 1\<close> and
  \<open>3 * i + 2\<close>. This definition follows the specification, not the source.
\<close>

definition spec_thumbnail_triples :: "u8 list \<Rightarrow> nat \<Rightarrow> RGB list" where
  "spec_thumbnail_triples raw n =
     map (\<lambda>i. \<lparr>r = raw ! (3 * i), g = raw ! (3 * i + 1), b = raw ! (3 * i + 2)\<rparr>) [0..<n]"

definition parse_jfif_data :: "JPEGParser \<Rightarrow> (JFIFData \<times> JPEGParser) outcome" where
  "parse_jfif_data p =
     (let raw = raw_data p; i0 = index p + 5 in
      obind (at raw i0) (\<lambda>vmajor.
      obind (at raw (i0 + 1)) (\<lambda>vminor.
      let i1 = i0 + 2 in
      obind (at raw i1) (\<lambda>unit_byte.
      let i2 = i1 + 1 in
      obind (at raw i2) (\<lambda>xhi.
      obind (at raw (i2 + 1)) (\<lambda>xlo.
      obind (at raw (i2 + 2)) (\<lambda>yhi.
      obind (at raw (i2 + 3)) (\<lambda>ylo.
      let i3 = i2 + 4 in
      obind (at raw i3) (\<lambda>xt.
      obind (at raw (i3 + 1)) (\<lambda>yt.
      let i4 = i3 + 2 in
      obind (thumbnail_loop raw [0..<unat xt * unat yt] []) (\<lambda>thumbnail.
        Returns
          (\<lparr>version = \<lparr>major = vmajor, minor = vminor\<rparr>,
            density_unit = density_unit_cast unit_byte,
            x_density = u8_to_u16 xhi xlo,
            y_density = u8_to_u16 yhi ylo,
            x_thumbnail = xt,
            y_thumbnail = yt,
            thumbnail_data = thumbnail\<rparr>,
           p\<lparr>index := i4\<rparr>))))))))))))"

text \<open>
  \<^verbatim>\<open>parse_quantization_table\<close> computes the precision and the identifier from the first
  byte and uses neither (both are \<^verbatim>\<open>[[maybe_unused]]\<close>); the 64 bytes that follow
  are copied into an array of \<^verbatim>\<open>unsigned short\<close>.
\<close>

definition parse_quantization_table :: "JPEGParser \<Rightarrow> (QuantizationTable \<times> JPEGParser) outcome" where
  "parse_quantization_table p =
     (let raw = raw_data p in
      obind (at raw (index p)) (\<lambda>head.
      let precision = drop_bit 4 (head AND 0xf0);
          identifier = head AND 0x0f;
          i1 = index p + 1 in
      obind (range_of raw i1 64) (\<lambda>bytes.
        Returns (\<lparr>data = map ucast bytes\<rparr>, p\<lparr>index := i1 + 64\<rparr>))))"

definition parse_huffman_table :: "JPEGParser \<Rightarrow> (HuffmanTable \<times> JPEGParser) outcome" where
  "parse_huffman_table p =
     (let raw = raw_data p in
      obind (range_of raw (index p) 16) (\<lambda>size_data.
      let i1 = index p + 16;
          codes_count = sum_list (map unat size_data) in
      obind (range_of raw i1 codes_count) (\<lambda>data_area.
      obind (from_size_data size_data data_area) (\<lambda>table.
        Returns (table, p\<lparr>index := i1 + codes_count\<rparr>)))))"

section \<open>The marker loop\<close>

text \<open>
  The loop of \<^verbatim>\<open>case 0xdb\<close>: each table goes to \<^verbatim>\<open>q_tables[q_tables_nbr]\<close>, and
  \<^verbatim>\<open>q_tables_nbr\<close> (an \<^verbatim>\<open>unsigned char\<close>) is incremented.
\<close>

function dqt_loop :: "nat \<Rightarrow> JPEGParser \<Rightarrow> JPEGEncoded \<Rightarrow> (JPEGParser \<times> JPEGEncoded) outcome" where
  "dqt_loop segment_end p acc =
     (if index p < segment_end then
        (case parse_quantization_table p of
           Returns (table, p') \<Rightarrow>
             (case store (q_tables acc) (unat (q_tables_nbr acc)) table of
                Returns qs \<Rightarrow>
                  dqt_loop segment_end p'
                    (acc\<lparr>q_tables := qs, q_tables_nbr := q_tables_nbr acc + 1\<rparr>)
              | Fails e \<Rightarrow> Fails e
              | OutOfRange \<Rightarrow> OutOfRange
              | Terminate \<Rightarrow> Terminate)
         | Fails e \<Rightarrow> Fails e
         | OutOfRange \<Rightarrow> OutOfRange
         | Terminate \<Rightarrow> Terminate)
      else Returns (p, acc))"
  by pat_completeness auto
termination
proof (relation "measure (\<lambda>(segment_end, p, acc). segment_end - index p)")
  show "wf (measure (\<lambda>(segment_end, p, acc). segment_end - index p))"
    by simp
next
  fix segment_end :: nat and p p' :: JPEGParser and acc :: JPEGEncoded
    and x :: "QuantizationTable \<times> JPEGParser" and table qs
  assume more: "index p < segment_end"
    and ret: "parse_quantization_table p = Returns x"
    and x: "(table, p') = x"
  from ret x have "index p' = index p + 65"
    by (auto simp: parse_quantization_table_def at_def range_of_def Let_def split: if_splits)
  with more show "((segment_end, p', acc\<lparr>q_tables := qs, q_tables_nbr := q_tables_nbr acc + 1\<rparr>),
      (segment_end, p, acc)) \<in> measure (\<lambda>(segment_end, p, acc). segment_end - index p)"
    by simp
qed

declare dqt_loop.simps [simp del]

text \<open>
  The loop of \<^verbatim>\<open>case 0xc4\<close>: the class and destination nibbles are read, then the
  table, which goes to the slot of its destination in the array of its class.
\<close>

function dht_loop :: "nat \<Rightarrow> JPEGParser \<Rightarrow> JPEGEncoded \<Rightarrow> (JPEGParser \<times> JPEGEncoded) outcome" where
  "dht_loop segment_end p acc =
     (if index p < segment_end then
        (case at (raw_data p) (index p) of
           Returns head \<Rightarrow>
             (case parse_huffman_table (p\<lparr>index := index p + 1\<rparr>) of
                Returns (table, p') \<Rightarrow>
                  (let table_class = drop_bit 4 (head AND 0xf0);
                       table_dest_id = head AND 0x0f in
                   if table_class = 0 then
                     (case store (huffman_dc_tables acc) (unat table_dest_id) table of
                        Returns ts \<Rightarrow> dht_loop segment_end p' (acc\<lparr>huffman_dc_tables := ts\<rparr>)
                      | Fails e \<Rightarrow> Fails e
                      | OutOfRange \<Rightarrow> OutOfRange
                      | Terminate \<Rightarrow> Terminate)
                   else
                     (case store (huffman_ac_tables acc) (unat table_dest_id) table of
                        Returns ts \<Rightarrow> dht_loop segment_end p' (acc\<lparr>huffman_ac_tables := ts\<rparr>)
                      | Fails e \<Rightarrow> Fails e
                      | OutOfRange \<Rightarrow> OutOfRange
                      | Terminate \<Rightarrow> Terminate))
              | Fails e \<Rightarrow> Fails e
              | OutOfRange \<Rightarrow> OutOfRange
              | Terminate \<Rightarrow> Terminate)
         | Fails e \<Rightarrow> Fails e
         | OutOfRange \<Rightarrow> OutOfRange
         | Terminate \<Rightarrow> Terminate)
      else Returns (p, acc))"
  by pat_completeness auto
termination
proof (relation "measure (\<lambda>(segment_end, p, acc). segment_end - index p)")
  show "wf (measure (\<lambda>(segment_end, p, acc). segment_end - index p))"
    by simp
next
  fix segment_end :: nat and p p' :: JPEGParser and acc :: JPEGEncoded
    and x :: "HuffmanTable \<times> JPEGParser" and table ts
  assume more: "index p < segment_end"
    and ret: "parse_huffman_table (p\<lparr>index := index p + 1\<rparr>) = Returns x"
    and x: "(table, p') = x"
  from ret x have "index p < index p'"
    by (auto simp: parse_huffman_table_def range_of_def Let_def obind_Returns_iff
        split: if_splits)
  with more show "((segment_end, p', acc\<lparr>huffman_dc_tables := ts\<rparr>), (segment_end, p, acc))
      \<in> measure (\<lambda>(segment_end, p, acc). segment_end - index p)"
    by simp
  from \<open>index p < index p'\<close> more
  show "((segment_end, p', acc\<lparr>huffman_ac_tables := ts\<rparr>), (segment_end, p, acc))
      \<in> measure (\<lambda>(segment_end, p, acc). segment_end - index p)"
    by simp
qed

declare dht_loop.simps [simp del]

text \<open>
  The \<^verbatim>\<open>switch (marker)\<close> of \<^verbatim>\<open>parse\<close>, entered with the index just after the two
  length bytes. In the two skips \<^verbatim>\<open>index += length - 2\<close> the index is at least 4, so
  the subtraction of 2 is exact also when the length is 0 or 1. The messages written
  to \<^verbatim>\<open>std::cout\<close> are not part of the model.
\<close>

definition dispatch :: "u8 \<Rightarrow> u16 \<Rightarrow> nat \<Rightarrow> JPEGParser \<Rightarrow> JPEGEncoded
    \<Rightarrow> (JPEGParser \<times> JPEGEncoded) outcome" where
  "dispatch marker len segment_end p acc =
     (if marker = 0xe0 then
        obind (parse_jfif_data p) (\<lambda>(jfif, p'). Returns (p', acc\<lparr>metadata := Some jfif\<rparr>))
      else if marker = 0xdb then dqt_loop segment_end p acc
      else if marker = 0xc4 then dht_loop segment_end p acc
      else if marker = 0xc0 then Returns (p\<lparr>index := index p + unat len - 2\<rparr>, acc)
      else if marker = 0xda then Returns (p\<lparr>index := length (raw_data p)\<rparr>, acc)
      else Returns (p\<lparr>index := index p + unat len - 2\<rparr>, acc))"

text \<open>
  One iteration of the \<^verbatim>\<open>while (index < raw_data.size())\<close> loop of \<^verbatim>\<open>parse\<close>: the
  marker prefix and the marker, then for a marker other than \<^verbatim>\<open>0xd8\<close> and \<^verbatim>\<open>0xd9\<close>
  the big-endian length and the switch. A first byte other than \<^verbatim>\<open>0xff\<close> leads to
  the bare \<^verbatim>\<open>throw;\<close>.
\<close>

definition parse_iteration :: "JPEGParser \<Rightarrow> JPEGEncoded \<Rightarrow> (JPEGParser \<times> JPEGEncoded) outcome" where
  "parse_iteration p acc =
     (let raw = raw_data p in
      obind (at raw (index p)) (\<lambda>first.
      if first = 0xff then
        obind (at raw (index p + 1)) (\<lambda>marker.
        if marker = 0xd8 \<or> marker = 0xd9 then Returns (p\<lparr>index := index p + 2\<rparr>, acc)
        else
          obind (at raw (index p + 2)) (\<lambda>hi.
          obind (at raw (index p + 3)) (\<lambda>lo.
          let len = (push_bit 8 (ucast hi) + ucast lo :: u16);
              segment_end = index p + 2 + unat len in
          dispatch marker len segment_end (p\<lparr>index := index p + 4\<rparr>) acc)))
      else Terminate))"

text \<open>
  Every decoder and both table loops leave the buffer as it is and never move the
  index backwards; the switch moves it back by at most 2 (the skip of a segment of
  declared length 0), after the 4 bytes of marker and length; so one iteration of the
  marker loop moves the index forwards. This is what makes the marker loop terminate.
\<close>

lemma parse_quantization_table_Returns:
  assumes "parse_quantization_table p = Returns (t, p')"
  shows "p' = p\<lparr>index := index p + 65\<rparr>"
    and "index p + 65 \<le> length (raw_data p)"
    and "t = \<lparr>data = map ucast (take 64 (drop (index p + 1) (raw_data p)))\<rparr>"
  using assms
  by (auto simp: parse_quantization_table_def at_def range_of_def Let_def obind_Returns_iff
      split: if_splits)

lemma dqt_loop_frame:
  "dqt_loop e p acc = Returns (p', acc') \<Longrightarrow> raw_data p' = raw_data p \<and> index p \<le> index p'"
proof (induction e p acc rule: dqt_loop.induct)
  case (1 e p acc)
  show ?case
  proof (cases "index p < e")
    case False
    with "1.prems" show ?thesis
      by (subst (asm) dqt_loop.simps) simp
  next
    case True
    with "1.prems" obtain t p1 qs where
      pq: "parse_quantization_table p = Returns (t, p1)"
      and st: "store (q_tables acc) (unat (q_tables_nbr acc)) t = Returns qs"
      and rest: "dqt_loop e p1 (acc\<lparr>q_tables := qs, q_tables_nbr := q_tables_nbr acc + 1\<rparr>)
                   = Returns (p', acc')"
      by (subst (asm) dqt_loop.simps) (auto split: outcome.splits)
    from "1.IH" [OF True pq refl st rest] parse_quantization_table_Returns(1) [OF pq]
    show ?thesis by simp
  qed
qed

lemma parse_huffman_table_frame:
  "parse_huffman_table p = Returns (t, p') \<Longrightarrow> raw_data p' = raw_data p \<and> index p + 16 \<le> index p'"
  by (auto simp: parse_huffman_table_def range_of_def Let_def obind_Returns_iff split: if_splits)

lemma dht_loop_frame:
  "dht_loop e p acc = Returns (p', acc') \<Longrightarrow> raw_data p' = raw_data p \<and> index p \<le> index p'"
proof (induction e p acc rule: dht_loop.induct)
  case (1 e p acc)
  show ?case
  proof (cases "index p < e")
    case False
    with "1.prems" show ?thesis
      by (subst (asm) dht_loop.simps) simp
  next
    case True
    obtain hd where hd: "at (raw_data p) (index p) = Returns hd"
      using "1.prems" True by (subst (asm) dht_loop.simps) (simp split: outcome.splits)
    obtain t p1 where ph: "parse_huffman_table (p\<lparr>index := index p + 1\<rparr>) = Returns (t, p1)"
      using "1.prems" True hd
      by (subst (asm) dht_loop.simps) (simp split: outcome.splits prod.splits)
    show ?thesis
    proof (cases "drop_bit 4 (hd AND 0xf0) = 0")
      case dc: True
      obtain ts where st: "store (huffman_dc_tables acc) (unat (hd AND 0x0f)) t = Returns ts"
        and rest: "dht_loop e p1 (acc\<lparr>huffman_dc_tables := ts\<rparr>) = Returns (p', acc')"
        using "1.prems" True hd ph dc
        by (subst (asm) dht_loop.simps) (simp split: outcome.splits)
      from "1.IH"(1) [OF True hd ph refl refl refl dc st rest] parse_huffman_table_frame [OF ph]
      show ?thesis by simp
    next
      case ac: False
      obtain ts where st: "store (huffman_ac_tables acc) (unat (hd AND 0x0f)) t = Returns ts"
        and rest: "dht_loop e p1 (acc\<lparr>huffman_ac_tables := ts\<rparr>) = Returns (p', acc')"
        using "1.prems" True hd ph ac
        by (subst (asm) dht_loop.simps) (simp split: outcome.splits)
      from "1.IH"(2) [OF True hd ph refl refl refl ac st rest] parse_huffman_table_frame [OF ph]
      show ?thesis by simp
    qed
  qed
qed


lemma parse_jfif_data_frame:
  "parse_jfif_data p = Returns (h, p') \<Longrightarrow> p' = p\<lparr>index := index p + 14\<rparr>"
  by (auto simp: parse_jfif_data_def Let_def obind_Returns_iff)

lemma dispatch_progress:
  assumes ret: "dispatch marker len segment_end p acc = Returns (p', acc')"
    and inside: "index p \<le> length (raw_data p)"
  shows "raw_data p' = raw_data p \<and> index p \<le> index p' + 2"
proof -
  consider (e0) "marker = 0xe0" | (db) "marker = 0xdb" | (c4) "marker = 0xc4"
    | (other) "marker \<noteq> 0xe0" "marker \<noteq> 0xdb" "marker \<noteq> 0xc4"
    by blast
  then show ?thesis
  proof cases
    case e0
    with ret show ?thesis
      by (auto simp: dispatch_def obind_Returns_iff dest!: parse_jfif_data_frame)
  next
    case db
    with ret have "dqt_loop segment_end p acc = Returns (p', acc')"
      by (simp add: dispatch_def)
    from dqt_loop_frame [OF this] show ?thesis by simp
  next
    case c4
    with ret have "dht_loop segment_end p acc = Returns (p', acc')"
      by (simp add: dispatch_def)
    from dht_loop_frame [OF this] show ?thesis by simp
  next
    case other
    with ret inside show ?thesis
      by (auto simp: dispatch_def split: if_splits)
  qed
qed

lemma parse_iteration_progress:
  assumes ret: "parse_iteration p acc = Returns (p', acc')"
  shows "raw_data p' = raw_data p \<and> index p < index p'"
proof -
  from ret obtain marker where first: "index p < length (raw_data p)"
    and marker: "at (raw_data p) (index p + 1) = Returns marker"
    and r1: "(if marker = 0xd8 \<or> marker = 0xd9 then Returns (p\<lparr>index := index p + 2\<rparr>, acc)
        else
          obind (at (raw_data p) (index p + 2)) (\<lambda>hi.
          obind (at (raw_data p) (index p + 3)) (\<lambda>lo.
          let len = (push_bit 8 (ucast hi) + ucast lo :: u16);
              segment_end = index p + 2 + unat len in
          dispatch marker len segment_end (p\<lparr>index := index p + 4\<rparr>) acc)))
         = Returns (p', acc')"
    by (auto simp: parse_iteration_def Let_def obind_Returns_iff at_def split: if_splits)
  show ?thesis
  proof (cases "marker = 0xd8 \<or> marker = 0xd9")
    case True
    with r1 show ?thesis by auto
  next
    case False
    with r1 obtain len segment_end where
      lo: "index p + 3 < length (raw_data p)"
      and d: "dispatch marker len segment_end (p\<lparr>index := index p + 4\<rparr>) acc = Returns (p', acc')"
      by (auto simp: Let_def obind_Returns_iff at_def split: if_splits)
    from dispatch_progress [OF d] lo show ?thesis
      by simp
  qed
qed

text \<open>
  The \<^verbatim>\<open>while (index < raw_data.size())\<close> loop of \<^verbatim>\<open>parse\<close> and \<^verbatim>\<open>parse\<close> itself,
  which starts at index 0 with value-initialised tables (\<^verbatim>\<open>{}\<close>): four quantization
  tables of 64 zeros, no table counted, and 32 empty Huffman tables of each class.
\<close>

function parse_loop :: "JPEGParser \<Rightarrow> JPEGEncoded \<Rightarrow> JPEGEncoded outcome" where
  "parse_loop p acc =
     (if index p < length (raw_data p) then
        (case parse_iteration p acc of
           Returns (p', acc') \<Rightarrow> parse_loop p' acc'
         | Fails e \<Rightarrow> Fails e
         | OutOfRange \<Rightarrow> OutOfRange
         | Terminate \<Rightarrow> Terminate)
      else Returns acc)"
  by pat_completeness auto
termination
proof (relation "measure (\<lambda>(p, acc). length (raw_data p) - index p)")
  show "wf (measure (\<lambda>(p, acc). length (raw_data p) - index p))"
    by simp
next
  fix p p' :: JPEGParser and acc acc' :: JPEGEncoded and x :: "JPEGParser \<times> JPEGEncoded"
  assume more: "index p < length (raw_data p)"
    and ret: "parse_iteration p acc = Returns x"
    and x: "(p', acc') = x"
  from ret x have "parse_iteration p acc = Returns (p', acc')"
    by simp
  from parse_iteration_progress [OF this] more
  show "((p', acc'), (p, acc)) \<in> measure (\<lambda>(p, acc). length (raw_data p) - index p)"
    by auto
qed

declare parse_loop.simps [simp del]

definition no_tables :: JPEGEncoded where
  "no_tables =
     \<lparr>metadata = None,
      q_tables = replicate 4 \<lparr>data = replicate 64 0\<rparr>,
      q_tables_nbr = 0,
      huffman_ac_tables = replicate 32 \<lparr>codes = []\<rparr>,
      huffman_dc_tables = replicate 32 \<lparr>codes = []\<rparr>\<rparr>"

definition parse :: "u8 list \<Rightarrow> JPEGEncoded outcome" where
  "parse raw = parse_loop \<lparr>raw_data = raw, index = 0\<rparr> no_tables"

section \<open>Concrete inputs\<close>

text \<open>Arrays of 16 code counts, and symbol lists.\<close>

definition counts_one_len2 :: "u8 list" where
  "counts_one_len2 = [0, 1, 0, 0, 0, 0, 0, 0, 0, 0, 0, 0, 0, 0, 0, 0]"

definition counts_len1_len2 :: "u8 list" where
  "counts_len1_len2 = [1, 1, 0, 0, 0, 0, 0, 0, 0, 0, 0, 0, 0, 0, 0, 0]"

definition counts_two_len1_one_len16 :: "u8 list" where
  "counts_two_len1_one_len16 = [2, 0, 0, 0, 0, 0, 0, 0, 0, 0, 0, 0, 0, 0, 0, 1]"

definition counts_all_zero :: "u8 list" where
  "counts_all_zero = [0, 0, 0, 0, 0, 0, 0, 0, 0, 0, 0, 0, 0, 0, 0, 0]"

definition counts_full_tree_plus_one :: "u8 list" where
  "counts_full_tree_plus_one = [1, 1, 1, 1, 1, 1, 1, 1, 1, 1, 1, 1, 1, 1, 1, 3]"

definition eighteen_symbols :: "u8 list" where
  "eighteen_symbols = [1, 2, 3, 4, 5, 6, 7, 8, 9, 10, 11, 12, 13, 14, 15, 16, 17, 18]"

definition counts_255_and_2 :: "u8 list" where
  "counts_255_and_2 = [255, 2, 0, 0, 0, 0, 0, 0, 0, 0, 0, 0, 0, 0, 0, 0]"



text \<open>The 64 coefficients of a quantization table, and the table they decode to.\<close>

definition sample_coefficients :: "u8 list" where
  "sample_coefficients =
     [16, 11, 10, 16, 24, 40, 51, 61,
      12, 12, 14, 19, 26, 58, 60, 55,
      14, 13, 16, 24, 40, 57, 69, 56,
      14, 17, 22, 29, 51, 87, 80, 62,
      18, 22, 37, 56, 68, 109, 103, 77,
      24, 35, 55, 64, 81, 104, 113, 92,
      49, 64, 78, 87, 103, 121, 120, 101,
      72, 92, 95, 98, 112, 100, 103, 99]"

definition sample_table :: QuantizationTable where
  "sample_table = \<lparr>data = map ucast sample_coefficients\<rparr>"

definition zero_table :: QuantizationTable where
  "zero_table = \<lparr>data = replicate 64 0\<rparr>"

text \<open>
  The start of a stream: the start-of-image marker and an APP0 segment of declared
  length 16 without thumbnail, 20 bytes in all; and the header this segment decodes to.
\<close>

definition jfif_identifier :: "u8 list" where
  "jfif_identifier = [0x4a, 0x46, 0x49, 0x46, 0x00]"

definition soi_app0 :: "u8 list" where
  "soi_app0 = [0xff, 0xd8, 0xff, 0xe0, 0x00, 0x10] @ jfif_identifier
              @ [1, 1, 1, 0, 72, 0, 72, 0, 0]"

definition sample_header :: JFIFData where
  "sample_header =
     \<lparr>version = \<lparr>major = 1, minor = 1\<rparr>, density_unit = PixelPerInch,
      x_density = 72, y_density = 72, x_thumbnail = 0, y_thumbnail = 0,
      thumbnail_data = []\<rparr>"

text \<open>An APP0 segment with a thumbnail of 1 by 2 pixels, the index after the length.\<close>

definition app0_thumbnail_1x2 :: JPEGParser where
  "app0_thumbnail_1x2 =
     \<lparr>raw_data = [0xff, 0xe0, 0x00, 0x10] @ jfif_identifier
                  @ [1, 1, 1, 0, 72, 0, 72, 1, 2],
      index = 4\<rparr>"

text \<open>An APP0 segment whose density-unit byte is 3, the index after the length.\<close>

definition app0_unit_3 :: JPEGParser where
  "app0_unit_3 =
     \<lparr>raw_data = [0xff, 0xe0, 0x00, 0x10] @ jfif_identifier
                  @ [1, 1, 3, 0, 72, 0, 72, 0, 0],
      index = 4\<rparr>"



definition dqt_identifier_1 :: "u8 list" where
  "dqt_identifier_1 = soi_app0 @ [0xff, 0xdb, 0x00, 0x43, 0x01] @ sample_coefficients"

definition dqt_identifier_0_twice :: "u8 list" where
  "dqt_identifier_0_twice =
     soi_app0 @ [0xff, 0xdb, 0x00, 0x84, 0x00] @ sample_coefficients
       @ [0x00] @ replicate 64 9"

definition dqt_twice_payload_start :: JPEGParser where
  "dqt_twice_payload_start = \<lparr>raw_data = dqt_identifier_0_twice, index = 24\<rparr>"


text \<open>
  A DQT segment of declared length 327 with five tables, of identifiers 0, 1, 2, 3
  and 0; and the state of \<^verbatim>\<open>parse\<close> when one table has been stored.
\<close>

definition dqt_five_tables :: "u8 list" where
  "dqt_five_tables =
     soi_app0 @ [0xff, 0xdb, 0x01, 0x47]
       @ [0x00] @ sample_coefficients @ [0x01] @ replicate 64 9
       @ [0x02] @ replicate 64 8 @ [0x03] @ replicate 64 7
       @ [0x00] @ replicate 64 6"

definition one_table_stored :: JPEGEncoded where
  "one_table_stored =
     no_tables\<lparr>metadata := Some sample_header,
               q_tables := [\<lparr>data = replicate 64 5\<rparr>, zero_table, zero_table, zero_table],
               q_tables_nbr := 1\<rparr>"

text \<open>Streams with the byte 0 where a marker prefix is expected, at offsets 0 and 2.\<close>

definition bad_prefix_at_0 :: "u8 list" where
  "bad_prefix_at_0 = [0x00]"

definition bad_prefix_at_2 :: "u8 list" where
  "bad_prefix_at_2 = [0xff, 0xd8, 0x00]"

section \<open>No decoder reports a typed error\<close>

lemma silent_simps [simp]:
  "silent (Returns v)" "silent OutOfRange" "\<not> silent (Fails e)" "\<not> silent Terminate"
  by (simp_all add: silent_def)

lemma silent_at [simp]: "silent (at v i)"
  by (simp add: at_def)

lemma silent_range_of [simp]: "silent (range_of v i n)"
  by (simp add: range_of_def)

lemma silent_store [simp]: "silent (store a i x)"
  by (simp add: store_def)

lemma silent_obind: "silent m \<Longrightarrow> (\<And>v. silent (f v)) \<Longrightarrow> silent (obind m f)"
  by (cases m) simp_all

lemma silent_pair_loop: "silent (pair_loop cl ct da is acc)"
  by (induction "is" arbitrary: acc) (auto intro!: silent_obind)

lemma silent_from_size_data: "silent (from_size_data size_data data_area)"
  by (auto simp: from_size_data_def make_code_table_def Let_def silent_pair_loop
      intro!: silent_obind)

lemma silent_thumbnail_loop: "silent (thumbnail_loop raw is acc)"
  by (induction "is" arbitrary: acc) (auto intro!: silent_obind)

lemma silent_parse_jfif_data: "silent (parse_jfif_data p)"
  by (auto simp: parse_jfif_data_def Let_def silent_thumbnail_loop intro!: silent_obind)

lemma silent_parse_quantization_table: "silent (parse_quantization_table p)"
  by (auto simp: parse_quantization_table_def Let_def intro!: silent_obind)

lemma silent_parse_huffman_table: "silent (parse_huffman_table p)"
  by (auto simp: parse_huffman_table_def Let_def silent_from_size_data intro!: silent_obind)

lemma silent_dqt_loop: "silent (dqt_loop e p acc)"
proof (induction e p acc rule: dqt_loop.induct)
  case (1 e p acc)
  show ?case
  proof (cases "index p < e")
    case False
    then show ?thesis by (subst dqt_loop.simps) simp
  next
    case True
    show ?thesis
    proof (cases "parse_quantization_table p")
      case (Returns x)
      obtain t p1 where x: "x = (t, p1)" by (cases x)
      show ?thesis
      proof (cases "store (q_tables acc) (unat (q_tables_nbr acc)) t")
        case st: (Returns qs)
        from "1.IH" [OF True Returns x [symmetric] st] True Returns x st
        show ?thesis by (subst dqt_loop.simps) simp
      next
        case (Fails e')
        with silent_store [of "q_tables acc" "unat (q_tables_nbr acc)" t] show ?thesis by simp
      next
        case OutOfRange
        with True Returns x show ?thesis by (subst dqt_loop.simps) simp
      next
        case Terminate
        with silent_store [of "q_tables acc" "unat (q_tables_nbr acc)" t] show ?thesis by simp
      qed
    next
      case (Fails e')
      with silent_parse_quantization_table [of p] show ?thesis by simp
    next
      case OutOfRange
      with True show ?thesis by (subst dqt_loop.simps) simp
    next
      case Terminate
      with silent_parse_quantization_table [of p] show ?thesis by simp
    qed
  qed
qed


lemma silent_dht_loop: "silent (dht_loop e p acc)"
proof (induction e p acc rule: dht_loop.induct)
  case (1 e p acc)
  show ?case
  proof (cases "index p < e")
    case False
    then show ?thesis by (subst dht_loop.simps) simp
  next
    case True
    show ?thesis
    proof (cases "at (raw_data p) (index p)")
      case hd: (Returns head)
      show ?thesis
      proof (cases "parse_huffman_table (p\<lparr>index := index p + 1\<rparr>)")
        case (Returns x)
        obtain t p1 where x: "x = (t, p1)" by (cases x)
        show ?thesis
        proof (cases "drop_bit 4 (head AND 0xf0) = 0")
          case dc: True
          show ?thesis
          proof (cases "store (huffman_dc_tables acc) (unat (head AND 0x0f)) t")
            case st: (Returns ts)
            from "1.IH"(1) [OF True hd Returns x [symmetric] refl refl dc st] True hd Returns x dc st
            show ?thesis by (subst dht_loop.simps) simp
          next
            case (Fails e')
            with silent_store [of "huffman_dc_tables acc" "unat (head AND 0x0f)" t]
            show ?thesis by simp
          next
            case OutOfRange
            with True hd Returns x dc show ?thesis by (subst dht_loop.simps) simp
          next
            case Terminate
            with silent_store [of "huffman_dc_tables acc" "unat (head AND 0x0f)" t]
            show ?thesis by simp
          qed
        next
          case ac: False
          show ?thesis
          proof (cases "store (huffman_ac_tables acc) (unat (head AND 0x0f)) t")
            case st: (Returns ts)
            from "1.IH"(2) [OF True hd Returns x [symmetric] refl refl ac st] True hd Returns x ac st
            show ?thesis by (subst dht_loop.simps) simp
          next
            case (Fails e')
            with silent_store [of "huffman_ac_tables acc" "unat (head AND 0x0f)" t]
            show ?thesis by simp
          next
            case OutOfRange
            with True hd Returns x ac show ?thesis by (subst dht_loop.simps) simp
          next
            case Terminate
            with silent_store [of "huffman_ac_tables acc" "unat (head AND 0x0f)" t]
            show ?thesis by simp
          qed
        qed
      next
        case (Fails e')
        with silent_parse_huffman_table [of "p\<lparr>index := index p + 1\<rparr>"] show ?thesis by simp
      next
        case OutOfRange
        with True hd show ?thesis by (subst dht_loop.simps) simp
      next
        case Terminate
        with silent_parse_huffman_table [of "p\<lparr>index := index p + 1\<rparr>"] show ?thesis by simp
      qed
    next
      case (Fails e')
      with silent_at [of "raw_data p" "index p"] show ?thesis by simp
    next
      case OutOfRange
      with True show ?thesis by (subst dht_loop.simps) simp
    next
      case Terminate
      with silent_at [of "raw_data p" "index p"] show ?thesis by simp
    qed
  qed
qed

lemma silent_dispatch: "silent (dispatch marker len segment_end p acc)"
  by (auto simp: dispatch_def silent_dqt_loop silent_dht_loop silent_parse_jfif_data
      intro!: silent_obind)

lemma obind_Terminate_iff:
  "silent m \<Longrightarrow> obind m f = Terminate \<longleftrightarrow> (\<exists>v. m = Returns v \<and> f v = Terminate)"
  by (cases m) auto

lemma parse_iteration_Terminate_iff:
  "parse_iteration p acc = Terminate
     \<longleftrightarrow> index p < length (raw_data p) \<and> raw_data p ! index p \<noteq> 0xff"
proof -
  have no: "dispatch marker len segment_end q acc \<noteq> Terminate" for marker len segment_end q
    using silent_dispatch [of marker len segment_end q acc] by auto
  show ?thesis
    by (auto simp: parse_iteration_def Let_def obind_Terminate_iff at_def no)
qed

lemma parse_loop_bad_prefix:
  assumes "index p < length (raw_data p)" and "raw_data p ! index p \<noteq> 0xff"
  shows "parse_loop p acc = Terminate"
proof -
  from assms have "parse_iteration p acc = Terminate"
    by (simp add: parse_iteration_Terminate_iff)
  with assms(1) show ?thesis
    by (subst parse_loop.simps) simp
qed

lemma untyped_simps [simp]:
  "untyped (Returns v)" "untyped OutOfRange" "\<not> untyped (Fails e)" "untyped Terminate"
  by (simp_all add: untyped_def)

lemma silent_untyped: "silent x \<Longrightarrow> untyped x"
  by (cases x) simp_all

lemma untyped_obind: "untyped m \<Longrightarrow> (\<And>v. untyped (f v)) \<Longrightarrow> untyped (obind m f)"
  by (cases m) simp_all

lemma untyped_parse_iteration: "untyped (parse_iteration p acc)"
  by (auto simp: parse_iteration_def Let_def silent_dispatch silent_untyped
      intro!: untyped_obind)

lemma untyped_parse_loop: "untyped (parse_loop p acc)"
proof (induction p acc rule: parse_loop.induct)
  case (1 p acc)
  show ?case
  proof (cases "index p < length (raw_data p)")
    case False
    then show ?thesis by (subst parse_loop.simps) simp
  next
    case True
    show ?thesis
    proof (cases "parse_iteration p acc")
      case (Returns x)
      obtain p1 acc1 where x: "x = (p1, acc1)" by (cases x)
      from "1.IH" [OF True Returns x [symmetric]] True Returns x
      show ?thesis by (subst parse_loop.simps) simp
    next
      case (Fails e')
      with untyped_parse_iteration [of p acc] show ?thesis by simp
    next
      case OutOfRange
      with True show ?thesis by (subst parse_loop.simps) simp
    next
      case Terminate
      with True show ?thesis by (subst parse_loop.simps) simp
    qed
  qed
qed

lemma untyped_not_Fails: "untyped x \<Longrightarrow> x \<noteq> Fails e"
  by auto

lemma unat_ucast_u8_u16: "unat (ucast x :: u16) = unat x" for x :: u8
proof -
  have "unat x < 2 ^ 8"
    using unsigned_less [of x, where ?'a = nat] by simp
  then have "unat x < 2 ^ 16"
    by simp
  then have "take_bit 16 (unat x) = unat x"
    by (simp only: take_bit_nat_eq_self_iff)
  then show ?thesis
    by (simp add: unsigned_ucast_eq)
qed

section \<open>What the Huffman builder computes\<close>

lemma length_code_loop:
  "length (code_loop sizes c current_size code_table) \<le> length code_table + length sizes"
proof (induction sizes arbitrary: c current_size code_table)
  case Nil
  show ?case by simp
next
  case (Cons sz sizes)
  obtain c' cs' where carry: "carry sz c current_size = (c', cs')"
    by (cases "carry sz c current_size")
  show ?case
  proof (cases "cs' > 16 \<or> c' = 0xffff")
    case True
    with carry show ?thesis by simp
  next
    case False
    with carry Cons.IH [of "c' + 1" cs' "code_table @ [c']"] show ?thesis by simp
  qed
qed

text \<open>
  The stop of the loop: in what \<^verbatim>\<open>make_code_table\<close> appends, only the last code can
  be \<^verbatim>\<open>0xffff\<close>, so the increment \<^verbatim>\<open>code += 1\<close> never wraps around.
\<close>

lemma code_loop_stops_at_sentinel:
  "\<exists>new. code_loop sizes c current_size code_table = code_table @ new
     \<and> 0xffff \<notin> set (butlast new)"
proof (induction sizes arbitrary: c current_size code_table)
  case Nil
  show ?case by simp
next
  case (Cons sz sizes)
  obtain c' cs' where carry: "carry sz c current_size = (c', cs')"
    by (cases "carry sz c current_size")
  show ?case
  proof (cases "cs' > 16 \<or> c' = 0xffff")
    case True
    with carry show ?thesis by simp
  next
    case False
    from Cons.IH [of "c' + 1" cs' "code_table @ [c']"] obtain new where
      new: "code_loop sizes (c' + 1) cs' (code_table @ [c']) = (code_table @ [c']) @ new"
        "0xffff \<notin> set (butlast new)"
      by blast
    with carry False have "code_loop (sz # sizes) c current_size code_table
        = code_table @ (c' # new)"
      by simp
    moreover from new(2) False have "0xffff \<notin> set (butlast (c' # new))"
      by simp
    ultimately show ?thesis
      by blast
  qed
qed

lemma pair_loop_in_range:
  assumes "\<forall>i \<in> set js. i < length cl \<and> i < length ct \<and> i < length da"
  shows "pair_loop cl ct da js acc
    = Returns (acc @ map (\<lambda>i. \<lparr>length_hc = cl ! i, code = ct ! i, value = da ! i\<rparr>) js)"
  using assms by (induction js arbitrary: acc) (simp_all add: at_def)

lemma pair_loop_out_of_range:
  assumes "\<exists>i \<in> set js. \<not> (i < length cl \<and> i < length ct \<and> i < length da)"
  shows "pair_loop cl ct da js acc = OutOfRange"
  using assms
proof (induction js arbitrary: acc)
  case Nil
  then show ?case by simp
next
  case (Cons j js)
  show ?case
  proof (cases "j < length cl \<and> j < length ct \<and> j < length da")
    case True
    with Cons.prems have "\<exists>i \<in> set js. \<not> (i < length cl \<and> i < length ct \<and> i < length da)"
      by auto
    from Cons.IH [OF this] True show ?thesis by (simp add: at_def)
  next
    case False
    then show ?thesis by (auto simp: at_def)
  qed
qed

lemma from_size_data_eq:
  "from_size_data size_data data_area =
     (let codes_length = expand_lengths size_data;
          code_table = code_loop codes_length 0 (codes_length ! 0) [] in
      if codes_length \<noteq> [] \<and> length data_area \<le> length code_table then
        Returns \<lparr>codes = map (\<lambda>i. \<lparr>length_hc = codes_length ! i, code = code_table ! i,
                                    value = data_area ! i\<rparr>) [0..<length data_area]\<rparr>
      else OutOfRange)"
proof (cases "expand_lengths size_data = []")
  case True
  then show ?thesis
    by (simp add: from_size_data_def make_code_table_def at_def)
next
  case False
  define cl where "cl = expand_lengths size_data"
  define ct where "ct = code_loop cl 0 (cl ! 0) []"
  have le: "length ct \<le> length cl"
    using length_code_loop [of cl 0 "cl ! 0" "[]"] by (simp add: ct_def)
  have mk: "make_code_table cl = Returns ct"
    using False by (simp add: make_code_table_def at_def cl_def ct_def)
  show ?thesis
  proof (cases "length data_area \<le> length ct")
    case True
    with le have "\<forall>i \<in> set [0..<length data_area].
        i < length cl \<and> i < length ct \<and> i < length data_area"
      by auto
    from pair_loop_in_range [OF this, of "[]"] mk True False show ?thesis
      by (simp add: from_size_data_def Let_def cl_def [symmetric] ct_def [symmetric])
  next
    case long: False
    then have "length ct \<in> set [0..<length data_area]"
      by simp
    then have "\<exists>i \<in> set [0..<length data_area].
        \<not> (i < length cl \<and> i < length ct \<and> i < length data_area)"
      by blast
    from pair_loop_out_of_range [OF this, of "[]"] mk long False show ?thesis
      by (simp add: from_size_data_def Let_def cl_def [symmetric] ct_def [symmetric])
  qed
qed

section \<open>What the segment decoders compute\<close>

lemma thumbnail_loop_in_range:
  assumes "\<forall>i \<in> set js. i + 2 < length raw"
  shows "thumbnail_loop raw js acc
    = Returns (acc @ map (\<lambda>i. \<lparr>r = raw ! i, g = raw ! (i + 1), b = raw ! (i + 2)\<rparr>) js)"
  using assms by (induction js arbitrary: acc) (simp_all add: at_def)

lemma parse_jfif_data_in_range:
  assumes hdr: "index p + 13 < length (raw_data p)"
    and n: "n = unat (raw_data p ! (index p + 12)) * unat (raw_data p ! (index p + 13))"
    and thumb: "n = 0 \<or> n + 1 < length (raw_data p)"
  shows "parse_jfif_data p = Returns
     (\<lparr>version = \<lparr>major = raw_data p ! (index p + 5), minor = raw_data p ! (index p + 6)\<rparr>,
       density_unit = density_unit_cast (raw_data p ! (index p + 7)),
       x_density = u8_to_u16 (raw_data p ! (index p + 8)) (raw_data p ! (index p + 9)),
       y_density = u8_to_u16 (raw_data p ! (index p + 10)) (raw_data p ! (index p + 11)),
       x_thumbnail = raw_data p ! (index p + 12),
       y_thumbnail = raw_data p ! (index p + 13),
       thumbnail_data = map (\<lambda>i. \<lparr>r = raw_data p ! i, g = raw_data p ! (i + 1),
                                   b = raw_data p ! (i + 2)\<rparr>) [0..<n]\<rparr>,
      p\<lparr>index := index p + 14\<rparr>)"
proof -
  from thumb have "\<forall>i \<in> set [0..<n]. i + 2 < length (raw_data p)"
    by auto
  from thumbnail_loop_in_range [OF this, of "[]"]
  have loop: "thumbnail_loop (raw_data p) [0..<n] [] = Returns
      (map (\<lambda>i. \<lparr>r = raw_data p ! i, g = raw_data p ! (i + 1), b = raw_data p ! (i + 2)\<rparr>) [0..<n])"
    by simp
  from hdr loop n show ?thesis
    by (simp add: parse_jfif_data_def Let_def at_def add.commute [of "index p"])
qed

lemma parse_quantization_table_eq:
  "parse_quantization_table p =
     (if index p + 65 \<le> length (raw_data p) then
        Returns (\<lparr>data = map ucast (take 64 (drop (index p + 1) (raw_data p)))\<rparr>,
                 p\<lparr>index := index p + 65\<rparr>)
      else OutOfRange)"
  by (simp add: parse_quantization_table_def Let_def at_def range_of_def)

lemma parse_quantization_table_payload:
  assumes "length coefficients = 64"
  shows "parse_quantization_table \<lparr>raw_data = before @ head # coefficients @ after,
                                     index = length before\<rparr>
    = Returns (\<lparr>data = map ucast coefficients\<rparr>,
               \<lparr>raw_data = before @ head # coefficients @ after, index = length before + 65\<rparr>)"
  using assms by (simp add: parse_quantization_table_eq)



lemma dqt_loop_returns:
  assumes "length (q_tables acc) = 4"
    and "unat (q_tables_nbr acc) + k \<le> 4"
    and "index p + 65 * k \<le> length (raw_data p)"
    and "segment_end - index p \<le> 65 * k"
    and "65 * k < segment_end - index p + 65"
  shows "\<exists>acc'. dqt_loop segment_end p acc = Returns (p\<lparr>index := index p + 65 * k\<rparr>, acc')"
  using assms
proof (induction k arbitrary: p acc)
  case 0
  then have "\<not> index p < segment_end" by simp
  then show ?case by (subst dqt_loop.simps) simp
next
  case (Suc k)
  define n where "n = unat (q_tables_nbr acc)"
  define t where "t = \<lparr>data = map ucast (take 64 (drop (index p + 1) (raw_data p)))\<rparr>"
  define p1 where "p1 = p\<lparr>index := index p + 65\<rparr>"
  define acc1 where "acc1 = acc\<lparr>q_tables := (q_tables acc)[n := t],
                                q_tables_nbr := q_tables_nbr acc + 1\<rparr>"
  from Suc.prems have more: "index p < segment_end" by simp
  from Suc.prems have pq: "parse_quantization_table p = Returns (t, p1)"
    by (simp add: parse_quantization_table_eq t_def p1_def)
  from Suc.prems have n4: "n < 4" by (simp add: n_def)
  with Suc.prems(1) have st: "store (q_tables acc) (unat (q_tables_nbr acc)) t
      = Returns ((q_tables acc)[n := t])"
    by (simp add: store_def n_def)
  have n1: "unat (q_tables_nbr acc1) = n + 1"
    using n4 by (simp add: acc1_def n_def unat_word_ariths)
  have "\<exists>acc'. dqt_loop segment_end p1 acc1 = Returns (p1\<lparr>index := index p1 + 65 * k\<rparr>, acc')"
  proof (rule Suc.IH)
    show "length (q_tables acc1) = 4" using Suc.prems(1) by (simp add: acc1_def)
    show "unat (q_tables_nbr acc1) + k \<le> 4" using n1 Suc.prems(2) by (simp add: n_def)
    show "index p1 + 65 * k \<le> length (raw_data p1)" using Suc.prems(3) by (simp add: p1_def)
    show "segment_end - index p1 \<le> 65 * k" using Suc.prems(4) by (simp add: p1_def)
    show "65 * k < segment_end - index p1 + 65" using Suc.prems(4,5) by (simp add: p1_def)
  qed
  then obtain acc' where "dqt_loop segment_end p1 acc1
      = Returns (p\<lparr>index := index p + 65 * Suc k\<rparr>, acc')"
    by (auto simp: p1_def)
  with more pq st have "dqt_loop segment_end p acc
      = Returns (p\<lparr>index := index p + 65 * Suc k\<rparr>, acc')"
    by (subst dqt_loop.simps) (simp add: acc1_def)
  then show ?case by blast
qed

lemma dqt_loop_keeps_other_fields:
  "dqt_loop e p acc = Returns (p', acc') \<Longrightarrow>
     metadata acc' = metadata acc \<and> huffman_ac_tables acc' = huffman_ac_tables acc
     \<and> huffman_dc_tables acc' = huffman_dc_tables acc"
proof (induction e p acc rule: dqt_loop.induct)
  case (1 e p acc)
  show ?case
  proof (cases "index p < e")
    case False
    with "1.prems" show ?thesis
      by (subst (asm) dqt_loop.simps) simp
  next
    case True
    with "1.prems" obtain t p1 qs where
      pq: "parse_quantization_table p = Returns (t, p1)"
      and st: "store (q_tables acc) (unat (q_tables_nbr acc)) t = Returns qs"
      and rest: "dqt_loop e p1 (acc\<lparr>q_tables := qs, q_tables_nbr := q_tables_nbr acc + 1\<rparr>)
                   = Returns (p', acc')"
      by (subst (asm) dqt_loop.simps) (auto split: outcome.splits)
    from "1.IH" [OF True pq refl st rest] show ?thesis by simp
  qed
qed

lemma dqt_loop_sequential:
  assumes "dqt_loop segment_end p acc = Returns (p', acc')"
    and "length (q_tables acc) = 4"
    and "unat (q_tables_nbr acc) \<le> 4"
  shows "\<exists>k. index p' = index p + 65 * k
     \<and> unat (q_tables_nbr acc) + k \<le> 4
     \<and> unat (q_tables_nbr acc') = unat (q_tables_nbr acc) + k
     \<and> length (q_tables acc') = 4
     \<and> (\<forall>j < k. q_tables acc' ! (unat (q_tables_nbr acc) + j)
            = \<lparr>data = map ucast (take 64 (drop (index p + 65 * j + 1) (raw_data p)))\<rparr>)
     \<and> (\<forall>i < 4. i < unat (q_tables_nbr acc) \<or> unat (q_tables_nbr acc) + k \<le> i
            \<longrightarrow> q_tables acc' ! i = q_tables acc ! i)"
  using assms
proof (induction segment_end p acc rule: dqt_loop.induct)
  case (1 e p acc)
  show ?case
  proof (cases "index p < e")
    case False
    with "1.prems" have "p' = p" "acc' = acc"
      by (subst (asm) dqt_loop.simps, simp)+
    with "1.prems"(2,3) show ?thesis
      by (intro exI [of _ 0]) simp
  next
    case True
    define n where "n = unat (q_tables_nbr acc)"
    define t where "t = \<lparr>data = map ucast (take 64 (drop (index p + 1) (raw_data p)))\<rparr>"
    define p1 where "p1 = p\<lparr>index := index p + 65\<rparr>"
    from "1.prems"(1) True have inr: "index p + 65 \<le> length (raw_data p)"
      by (subst (asm) dqt_loop.simps) (simp add: parse_quantization_table_eq split: if_splits)
    then have pq: "parse_quantization_table p = Returns (t, p1)"
      by (simp add: parse_quantization_table_eq t_def p1_def)
    from "1.prems" True pq have n4: "n < 4"
      by (subst (asm) dqt_loop.simps) (simp add: store_def n_def split: if_splits)
    define qs where "qs = (q_tables acc)[n := t]"
    from n4 "1.prems"(2) have st: "store (q_tables acc) (unat (q_tables_nbr acc)) t = Returns qs"
      by (simp add: store_def qs_def n_def)
    define acc1 where "acc1 = acc\<lparr>q_tables := qs, q_tables_nbr := q_tables_nbr acc + 1\<rparr>"
    from "1.prems"(1) True pq st have rest: "dqt_loop e p1 acc1 = Returns (p', acc')"
      by (subst (asm) dqt_loop.simps) (simp add: acc1_def)
    have len1: "length (q_tables acc1) = 4"
      using "1.prems"(2) by (simp add: acc1_def qs_def)
    have n1: "unat (q_tables_nbr acc1) = n + 1"
      using n4 by (simp add: acc1_def n_def unat_word_ariths)
    have le1: "unat (q_tables_nbr acc1) \<le> 4"
      using n1 n4 by simp
    from "1.IH" [OF True pq refl st rest [unfolded acc1_def] len1 [unfolded acc1_def]
        le1 [unfolded acc1_def]]
    obtain k where k: "index p' = index p1 + 65 * k"
      "n + 1 + k \<le> 4"
      "unat (q_tables_nbr acc') = n + 1 + k"
      "length (q_tables acc') = 4"
      "\<forall>j < k. q_tables acc' ! (n + 1 + j)
            = \<lparr>data = map ucast (take 64 (drop (index p1 + 65 * j + 1) (raw_data p1)))\<rparr>"
      "\<forall>i < 4. i < n + 1 \<or> n + 1 + k \<le> i \<longrightarrow> q_tables acc' ! i = q_tables acc1 ! i"
      unfolding acc1_def [symmetric] n1 by blast
    have first: "q_tables acc' ! n = t"
      using k(6) n4 "1.prems"(2) by (simp add: acc1_def qs_def)
    have tabs: "q_tables acc' ! (n + j)
        = \<lparr>data = map ucast (take 64 (drop (index p + 65 * j + 1) (raw_data p)))\<rparr>"
      if "j < Suc k" for j
    proof (cases j)
      case 0
      with first show ?thesis by (simp add: t_def)
    next
      case (Suc j')
      with that k(5) show ?thesis by (simp add: p1_def add.assoc)
    qed
    have frame: "q_tables acc' ! i = q_tables acc ! i"
      if "i < 4" "i < n \<or> n + Suc k \<le> i" for i
    proof -
      from that k(6) have "q_tables acc' ! i = q_tables acc1 ! i" by auto
      also from that have "\<dots> = q_tables acc ! i" by (auto simp: acc1_def qs_def)
      finally show ?thesis .
    qed
    show ?thesis
      unfolding n_def [symmetric]
      using k(1-4) tabs frame by (intro exI [of _ "Suc k"]) (simp add: p1_def)
  qed
qed

section \<open>The canonical Huffman assignment\<close>

text \<open>
  Claim C1. On the 16 counts \<open>[0,1,0,...,0]\<close> with the symbol list \<open>[0xAB]\<close>,
  \<^verbatim>\<open>from_size_data\<close> returns exactly one code, of length 2, code value 0 and symbol
  \<open>0xAB\<close>; on the counts \<open>[1,1,0,...,0]\<close> with the symbols \<open>[0x01, 0x02]\<close> it returns
  exactly the code of length 1, value 0, symbol 1 and then the code of length 2,
  value binary 10, symbol 2.
\<close>

theorem from_size_data_reference_inputs:
  "from_size_data counts_one_len2 [0xAB]
     = Returns \<lparr>codes = [\<lparr>length_hc = 2, code = 0, value = 0xAB\<rparr>]\<rparr>
   \<and> from_size_data counts_len1_len2 [0x01, 0x02]
     = Returns \<lparr>codes = [\<lparr>length_hc = 1, code = 0, value = 0x01\<rparr>,
                         \<lparr>length_hc = 2, code = 2, value = 0x02\<rparr>]\<rparr>"
  by code_simp

text \<open>
  Claim C2 says that the code value never wraps around. The increment is guarded by
  the test for \<^verbatim>\<open>0xffff\<close>, after which nothing more is pushed; the shift
  \<^verbatim>\<open>code <<= 1\<close> is not guarded. With two codes of length 1 and one of length 16, the
  running code is 2 when the length rises from 1 to 16, and 15 shifts of a 16-bit value
  leave 0. The third symbol is returned with the code value 0, which is \<open>2 * 2 ^ 15\<close>
  modulo \<open>2 ^ 16\<close> and is also the code value of the first symbol.
\<close>

theorem shift_wraps_code_value:
  "from_size_data counts_two_len1_one_len16 [1, 2, 3]
     = Returns \<lparr>codes = [\<lparr>length_hc = 1, code = 0, value = 1\<rparr>,
                         \<lparr>length_hc = 1, code = 1, value = 2\<rparr>,
                         \<lparr>length_hc = 16, code = 0, value = 3\<rparr>]\<rparr>
   \<and> carry 16 2 1 = (0, 16)"
  by code_simp

text \<open>
  Claim C8 says that every element access of the Huffman builder is in bounds when the
  symbol list is as long as the sum of the counts. With 16 zero counts and no symbol,
  \<^verbatim>\<open>make_code_table\<close> reads \<^verbatim>\<open>sizes[0]\<close> of an empty vector. With one code of each
  length 1 to 15 and three of length 16, and 18 symbols, the code table stops at the
  17th entry, whose code is \<^verbatim>\<open>0xffff\<close>, and the pairing loop reads \<^verbatim>\<open>code_table[17]\<close>.
\<close>

theorem from_size_data_reads_out_of_range:
  "length ([] :: u8 list) = sum_list (map unat counts_all_zero)
   \<and> make_code_table (expand_lengths counts_all_zero) = OutOfRange
   \<and> from_size_data counts_all_zero [] = OutOfRange
   \<and> length eighteen_symbols = sum_list (map unat counts_full_tree_plus_one)
   \<and> make_code_table (expand_lengths counts_full_tree_plus_one)
       = Returns [0, 2, 6, 14, 30, 62, 126, 254, 510, 1022, 2046, 4094, 8190, 16382, 32766, 65534, 65535]
   \<and> from_size_data counts_full_tree_plus_one eighteen_symbols = OutOfRange"
  by code_simp

text \<open>
  Claim C7, as stated, fails: \<^verbatim>\<open>from_size_data\<close> checks neither the length of the
  symbol list against the sum of the counts nor the total against 256. With the counts
  \<open>[1,1,0,...,0]\<close> (sum 2) and one symbol it returns a table of one code; with 255
  codes of length 1, 2 of length 2 and 257 symbols it returns as well.
\<close>

theorem mismatched_symbol_list_is_accepted:
  "from_size_data counts_len1_len2 [0x01]
     = Returns \<lparr>codes = [\<lparr>length_hc = 1, code = 0, value = 0x01\<rparr>]\<rparr>
   \<and> returned (from_size_data counts_255_and_2 (replicate 257 9))"
proof -
  have short: "from_size_data counts_len1_len2 [0x01]
      = Returns \<lparr>codes = [\<lparr>length_hc = 1, code = 0, value = 0x01\<rparr>]\<rparr>"
    by code_simp
  have "expand_lengths counts_255_and_2 \<noteq> []"
    by code_simp
  moreover have "length (code_loop (expand_lengths counts_255_and_2) 0
      (expand_lengths counts_255_and_2 ! 0) []) = 257"
    by code_simp
  ultimately have "returned (from_size_data counts_255_and_2 (replicate 257 9))"
    by (simp add: from_size_data_eq Let_def returned_def)
  with short show ?thesis
    by simp
qed

text \<open>
  Claim C7, amended. \<^verbatim>\<open>from_size_data\<close> never fails with a typed error, and it
  validates nothing: whenever \<^verbatim>\<open>make_code_table\<close> returns a code table for the lengths
  expanded from the counts and the symbol list is no longer than that table, the
  result is one code per symbol, the \<open>i\<close>-th made of the \<open>i\<close>-th length, the \<open>i\<close>-th
  code and the \<open>i\<close>-th symbol, whether or not the number of symbols is the sum of the
  counts and whether or not the total exceeds 256.
\<close>

theorem from_size_data_validates_nothing:
  "from_size_data size_data data_area \<noteq> Fails e
   \<and> (make_code_table (expand_lengths size_data) = Returns code_table
        \<and> length data_area \<le> length code_table \<longrightarrow>
      from_size_data size_data data_area = Returns
        \<lparr>codes = map (\<lambda>i. \<lparr>length_hc = expand_lengths size_data ! i, code = code_table ! i,
                               value = data_area ! i\<rparr>) [0..<length data_area]\<rparr>)"
proof -
  have "from_size_data size_data data_area \<noteq> Fails e"
    using silent_from_size_data [of size_data data_area] by auto
  moreover have "from_size_data size_data data_area = Returns
        \<lparr>codes = map (\<lambda>i. \<lparr>length_hc = expand_lengths size_data ! i, code = code_table ! i,
                               value = data_area ! i\<rparr>) [0..<length data_area]\<rparr>"
    if "make_code_table (expand_lengths size_data) = Returns code_table"
      and "length data_area \<le> length code_table"
    using that
    by (auto simp: from_size_data_eq make_code_table_def at_def Let_def split: if_splits)
  ultimately show ?thesis
    by blast
qed

theorem from_size_data_validates_nothing_witness:
  "make_code_table (expand_lengths counts_len1_len2) = Returns [0, 2]
   \<and> length [0x01 :: u8] \<le> length [0, 2 :: u16]
   \<and> from_size_data counts_len1_len2 [0x01]
       = Returns \<lparr>codes = [\<lparr>length_hc = 1, code = 0, value = 0x01\<rparr>]\<rparr>"
proof -
  have mk: "make_code_table (expand_lengths counts_len1_len2) = Returns [0, 2]"
    by code_simp
  have first: "expand_lengths counts_len1_len2 ! 0 = 1"
    by code_simp
  from from_size_data_validates_nothing [of counts_len1_len2 "[0x01]" _ "[0, 2]"] mk
  have "from_size_data counts_len1_len2 [0x01] = Returns
        \<lparr>codes = map (\<lambda>i. \<lparr>length_hc = expand_lengths counts_len1_len2 ! i, code = [0, 2] ! i,
                               value = [0x01] ! i\<rparr>) [0..<length [0x01 :: u8]]\<rparr>"
    by simp
  with mk first show ?thesis
    by simp
qed

section \<open>The JFIF header\<close>

text \<open>
  Claim C4 says that \<^verbatim>\<open>parse_jfif_data\<close> reads width times height RGB triples from
  the start of the whole buffer. The loop of the source indexes the bytes of pixel
  \<open>i\<close> with \<open>i\<close>, \<open>i + 1\<close> and \<open>i + 2\<close>, where three bytes per pixel need \<open>3 * i\<close>,
  \<open>3 * i + 1\<close> and \<open>3 * i + 2\<close>: consecutive pixels share two bytes. On an APP0
  segment with a thumbnail of 1 by 2 pixels the list returned has 2 pixels and starts
  at offset 0 of the buffer, but its second pixel is made of the bytes 1, 2 and 3,
  while the second triple of the buffer is made of the bytes 3, 4 and 5.
\<close>

theorem thumbnail_pixels_overlap:
  "parse_jfif_data app0_thumbnail_1x2 = Returns
     (\<lparr>version = \<lparr>major = 1, minor = 1\<rparr>, density_unit = PixelPerInch,
       x_density = 72, y_density = 72, x_thumbnail = 1, y_thumbnail = 2,
       thumbnail_data = [\<lparr>r = 0xff, g = 0xe0, b = 0x00\<rparr>, \<lparr>r = 0xe0, g = 0x00, b = 0x10\<rparr>]\<rparr>,
      app0_thumbnail_1x2\<lparr>index := 18\<rparr>)
   \<and> spec_thumbnail_triples (raw_data app0_thumbnail_1x2) 2
       = [\<lparr>r = 0xff, g = 0xe0, b = 0x00\<rparr>, \<lparr>r = 0x10, g = 0x4a, b = 0x46\<rparr>]"
  by code_simp

text \<open>
  Claim C10, as stated, fails: on an APP0 payload whose density-unit byte is 3,
  \<^verbatim>\<open>parse_jfif_data\<close> returns a header, with a density unit that is none of the three
  enumerators; it does not fail.
\<close>

theorem unknown_density_unit_is_accepted:
  "parse_jfif_data app0_unit_3 = Returns
     (\<lparr>version = \<lparr>major = 1, minor = 1\<rparr>, density_unit = Unnamed 3,
       x_density = 72, y_density = 72, x_thumbnail = 0, y_thumbnail = 0,
       thumbnail_data = []\<rparr>,
      app0_unit_3\<lparr>index := 18\<rparr>)
   \<and> parse_jfif_data app0_unit_3 \<noteq> Fails UnknownDensityUnit"
  by code_simp

text \<open>
  Claim C10, amended. \<^verbatim>\<open>parse_jfif_data\<close> never fails with \<open>UnknownDensityUnit\<close>.
  When its reads are inside the buffer it returns whatever the density-unit byte \<open>u\<close>
  is: the bytes 0, 1 and 2 give the units none, pixels per inch and pixels per cm, and
  any other byte is cast to a value of the enumeration type that is none of the three.
\<close>

theorem density_unit_is_cast_unchecked:
  assumes "index p + 13 < length (raw_data p)"
    and "n = unat (raw_data p ! (index p + 12)) * unat (raw_data p ! (index p + 13))"
    and "n = 0 \<or> n + 1 < length (raw_data p)"
    and "u = raw_data p ! (index p + 7)"
  shows "parse_jfif_data p \<noteq> Fails UnknownDensityUnit
     \<and> (\<exists>hdr p'. parse_jfif_data p = Returns (hdr, p')
          \<and> density_unit hdr = (if u = 0 then NoUnit else if u = 1 then PixelPerInch
                                  else if u = 2 then PixelPerCm else Unnamed u))"
  using parse_jfif_data_in_range [OF assms(1-3)] assms(4)
  by (simp add: density_unit_cast_def)

theorem density_unit_is_cast_unchecked_witness:
  "index app0_unit_3 + 13 < length (raw_data app0_unit_3)
   \<and> (3::u8) = raw_data app0_unit_3 ! (index app0_unit_3 + 7)
   \<and> (\<exists>hdr p'. parse_jfif_data app0_unit_3 = Returns (hdr, p')
          \<and> density_unit hdr = Unnamed 3)"
proof -
  have h1: "index app0_unit_3 + 13 < length (raw_data app0_unit_3)"
    by code_simp
  have h2: "(0::nat) = unat (raw_data app0_unit_3 ! (index app0_unit_3 + 12))
        * unat (raw_data app0_unit_3 ! (index app0_unit_3 + 13))"
    by code_simp
  have h3: "(0::nat) = 0 \<or> 0 + 1 < length (raw_data app0_unit_3)"
    by simp
  have h4: "(3::u8) = raw_data app0_unit_3 ! (index app0_unit_3 + 7)"
    by code_simp
  from density_unit_is_cast_unchecked [OF h1 h2 h3 h4] h1 h4 show ?thesis
    by simp
qed

section \<open>Quantization tables\<close>

text \<open>
  Claim C9, as stated, fails in its last part: the table that
  \<^verbatim>\<open>parse_quantization_table\<close> returns has the 64 values and nothing else. The
  payloads with identifier 0 and with identifier 1 over the same coefficients decode
  to the same table, so the table does not carry the identifier.
\<close>

theorem returned_table_forgets_identifier:
  "parse_quantization_table \<lparr>raw_data = 0x00 # sample_coefficients, index = 0\<rparr>
     = Returns (sample_table, \<lparr>raw_data = 0x00 # sample_coefficients, index = 65\<rparr>)
   \<and> parse_quantization_table \<lparr>raw_data = 0x01 # sample_coefficients, index = 0\<rparr>
     = Returns (sample_table, \<lparr>raw_data = 0x01 # sample_coefficients, index = 65\<rparr>)"
  by code_simp

text \<open>
  Claim C9, amended. For every table payload, that is any first byte (precision and
  identifier nibbles) followed by 64 coefficient bytes, at any place of a buffer,
  \<^verbatim>\<open>parse_quantization_table\<close> returns the table of those 64 values in wire order, each
  widened to 16 bits with its value unchanged, and advances the index by 65. The first
  byte has no effect on the result.
\<close>

theorem dqt_payload_round_trip:
  assumes "length coefficients = 64"
  shows "\<exists>t. parse_quantization_table
           \<lparr>raw_data = before @ head # coefficients @ after, index = length before\<rparr>
         = Returns (t, \<lparr>raw_data = before @ head # coefficients @ after,
                        index = length before + 65\<rparr>)
       \<and> t = \<lparr>data = map ucast coefficients\<rparr>
       \<and> map unat (data t) = map unat coefficients"
  using parse_quantization_table_payload [OF assms, of before head after]
  by (simp add: unat_ucast_u8_u16 comp_def)

theorem dqt_payload_round_trip_witness:
  "length sample_coefficients = 64
   \<and> (\<exists>t. parse_quantization_table \<lparr>raw_data = [] @ 0x02 # sample_coefficients @ [],
                                       index = length ([] :: u8 list)\<rparr>
         = Returns (t, \<lparr>raw_data = [] @ 0x02 # sample_coefficients @ [],
                        index = length ([] :: u8 list) + 65\<rparr>)
       \<and> t = sample_table)"
proof -
  have h: "length sample_coefficients = 64"
    by code_simp
  from dqt_payload_round_trip [OF h, of "[]" 2 "[]"] h show ?thesis
    unfolding sample_table_def by blast
qed

text \<open>
  Claim C5, as stated, fails: the tables are not stored by identifier, and nothing
  keeps them to 4. A single table with identifier 1 is stored in slot 0 and slot 1
  keeps its initial zeros; of two tables with identifier 0 the second goes to slot 1
  and the first stays in slot 0; and of five tables, the last with identifier 0 again,
  the fifth is not stored over the first: it is written to \<^verbatim>\<open>q_tables[4]\<close>, outside
  the array of 4.
\<close>

theorem tables_are_not_keyed_by_identifier:
  "parse dqt_identifier_1 = Returns
     (no_tables\<lparr>metadata := Some sample_header,
                q_tables := [sample_table, zero_table, zero_table, zero_table],
                q_tables_nbr := 1\<rparr>)
   \<and> parse dqt_identifier_0_twice = Returns
     (no_tables\<lparr>metadata := Some sample_header,
                q_tables := [sample_table, \<lparr>data = replicate 64 9\<rparr>, zero_table, zero_table],
                q_tables_nbr := 2\<rparr>)
   \<and> parse dqt_five_tables = OutOfRange"
  by code_simp

text \<open>
  Claim C5, amended. The quantization tables are stored in order of arrival, whatever
  their identifiers. Let a DQT segment hold \<open>k\<close> tables (\<open>k\<close> is the number of runs of
  65 bytes needed to reach the end of the segment from the index), all of them inside
  the buffer, and let it be met when \<open>n\<close> tables are stored, with \<open>n + k\<close> at most 4.
  Then the loop over the segment returns, at or past the end of the segment, with the
  index advanced by \<open>65 * k\<close> and the counter at \<open>n + k\<close>; slot \<open>n + j\<close> holds the
  table decoded from the \<open>j\<close>-th run of 65 bytes; every other slot, the header and the
  Huffman tables are unchanged, so no stored table is overwritten. What the loop does
  when the tables do not fit the 4 slots is not part of the statement.
\<close>

theorem tables_are_stored_in_arrival_order:
  assumes len: "length (q_tables acc) = 4"
    and room: "unat (q_tables_nbr acc) + k \<le> 4"
    and inside: "index p + 65 * k \<le> length (raw_data p)"
    and upper: "segment_end - index p \<le> 65 * k"
    and lower: "65 * k < segment_end - index p + 65"
  shows "\<exists>acc'. dqt_loop segment_end p acc = Returns (p\<lparr>index := index p + 65 * k\<rparr>, acc')
     \<and> segment_end \<le> index p + 65 * k
     \<and> unat (q_tables_nbr acc') = unat (q_tables_nbr acc) + k
     \<and> length (q_tables acc') = 4
     \<and> (\<forall>i < 4. q_tables acc' ! i =
          (if unat (q_tables_nbr acc) \<le> i \<and> i < unat (q_tables_nbr acc) + k then
             \<lparr>data = map ucast (take 64
                (drop (index p + 65 * (i - unat (q_tables_nbr acc)) + 1) (raw_data p)))\<rparr>
           else q_tables acc ! i))
     \<and> metadata acc' = metadata acc
     \<and> huffman_ac_tables acc' = huffman_ac_tables acc
     \<and> huffman_dc_tables acc' = huffman_dc_tables acc"
proof -
  define n where "n = unat (q_tables_nbr acc)"
  from dqt_loop_returns [OF assms] obtain acc' where
    ret: "dqt_loop segment_end p acc = Returns (p\<lparr>index := index p + 65 * k\<rparr>, acc')"
    by blast
  from room have "unat (q_tables_nbr acc) \<le> 4" by simp
  from dqt_loop_sequential [OF ret len this] obtain k' where
    k': "index (p\<lparr>index := index p + 65 * k\<rparr>) = index p + 65 * k'"
      "unat (q_tables_nbr acc') = n + k'" "length (q_tables acc') = 4"
    and tabs: "\<And>j. j < k' \<Longrightarrow> q_tables acc' ! (n + j)
        = \<lparr>data = map ucast (take 64 (drop (index p + 65 * j + 1) (raw_data p)))\<rparr>"
    and frame: "\<And>i. i < 4 \<Longrightarrow> i < n \<or> n + k' \<le> i \<Longrightarrow> q_tables acc' ! i = q_tables acc ! i"
    unfolding n_def by blast
  from k'(1) have kk: "k' = k" by simp
  have slot: "q_tables acc' ! i =
      (if n \<le> i \<and> i < n + k then
         \<lparr>data = map ucast (take 64 (drop (index p + 65 * (i - n) + 1) (raw_data p)))\<rparr>
       else q_tables acc ! i)" if "i < 4" for i
  proof (cases "n \<le> i \<and> i < n + k")
    case True
    then have "i - n < k'" "n + (i - n) = i" by (auto simp: kk)
    with tabs [of "i - n"] True show ?thesis by simp
  next
    case False
    with frame [OF that] show ?thesis by (auto simp: kk)
  qed
  from upper have "segment_end \<le> index p + 65 * k" by simp
  with ret k'(2,3) slot dqt_loop_keeps_other_fields [OF ret] show ?thesis
    unfolding n_def [symmetric] kk by blast
qed

theorem tables_are_stored_in_arrival_order_witness:
  "length (q_tables one_table_stored) = 4
   \<and> unat (q_tables_nbr one_table_stored) + 2 \<le> 4
   \<and> index dqt_twice_payload_start + 65 * 2 \<le> length (raw_data dqt_twice_payload_start)
   \<and> 154 - index dqt_twice_payload_start \<le> 65 * 2
   \<and> 65 * 2 < 154 - index dqt_twice_payload_start + 65
   \<and> dqt_loop 154 dqt_twice_payload_start one_table_stored = Returns
       (dqt_twice_payload_start\<lparr>index := 154\<rparr>,
        one_table_stored\<lparr>q_tables := [\<lparr>data = replicate 64 5\<rparr>, sample_table,
                                      \<lparr>data = replicate 64 9\<rparr>, zero_table],
                         q_tables_nbr := 3\<rparr>)"
proof -
  have h1: "length (q_tables one_table_stored) = 4"
    by code_simp
  have h2: "unat (q_tables_nbr one_table_stored) + 2 \<le> 4"
    by code_simp
  have h3: "index dqt_twice_payload_start + 65 * 2 \<le> length (raw_data dqt_twice_payload_start)"
    by code_simp
  have h4: "154 - index dqt_twice_payload_start \<le> 65 * 2"
    by code_simp
  have h5: "65 * 2 < 154 - index dqt_twice_payload_start + 65"
    by code_simp
  have ret: "dqt_loop 154 dqt_twice_payload_start one_table_stored = Returns
       (dqt_twice_payload_start\<lparr>index := 154\<rparr>,
        one_table_stored\<lparr>q_tables := [\<lparr>data = replicate 64 5\<rparr>, sample_table,
                                      \<lparr>data = replicate 64 9\<rparr>, zero_table],
                         q_tables_nbr := 3\<rparr>)"
    by code_simp
  from tables_are_stored_in_arrival_order [OF h1 h2 h3 h4 h5] ret h1 h2 h3 h4 h5 show ?thesis
    by blast
qed

section \<open>Reads past the end of the buffer\<close>




section \<open>The marker prefix\<close>

text \<open>
  Claim C6, as stated, fails: a byte other than \<^verbatim>\<open>0xff\<close> where a marker prefix is
  expected leads to \<^verbatim>\<open>throw;\<close> with no exception being handled, which ends the
  program through \<^verbatim>\<open>std::terminate\<close>. There is no typed error and no offset: the
  outcome is the same for the byte 0 at offset 0 and at offset 2.
\<close>

theorem bad_prefix_is_not_a_typed_error:
  "parse bad_prefix_at_0 = Terminate
   \<and> parse bad_prefix_at_2 = Terminate
   \<and> parse bad_prefix_at_0 \<noteq> Fails (InvalidMarkerPrefix 0)
   \<and> parse bad_prefix_at_2 \<noteq> Fails (InvalidMarkerPrefix 2)"
  by code_simp

text \<open>
  Claim C6, amended. Whenever the byte at the index, at the head of an iteration of the
  marker loop, is not \<^verbatim>\<open>0xff\<close>, the loop ends the program through \<^verbatim>\<open>std::terminate\<close>,
  whatever follows in the buffer: no recovery is attempted. This is the only way in
  which an iteration of the loop terminates the program, and the loop never reports a
  typed error.
\<close>

theorem bad_prefix_terminates:
  "(index p < length (raw_data p) \<and> raw_data p ! index p \<noteq> 0xff \<longrightarrow>
      parse_loop p acc = Terminate)
   \<and> (parse_iteration p acc = Terminate \<longleftrightarrow>
        index p < length (raw_data p) \<and> raw_data p ! index p \<noteq> 0xff)
   \<and> parse_loop p acc \<noteq> Fails e"
  using parse_loop_bad_prefix [of p acc] parse_iteration_Terminate_iff [of p acc]
    untyped_not_Fails [OF untyped_parse_loop, of p acc e]
  by blast

theorem bad_prefix_terminates_witness:
  "index \<lparr>raw_data = bad_prefix_at_2, index = 2\<rparr>
      < length (raw_data \<lparr>raw_data = bad_prefix_at_2, index = 2\<rparr>)
   \<and> raw_data \<lparr>raw_data = bad_prefix_at_2, index = 2\<rparr>
        ! index \<lparr>raw_data = bad_prefix_at_2, index = 2\<rparr> \<noteq> 0xff
   \<and> parse_loop \<lparr>raw_data = bad_prefix_at_2, index = 2\<rparr> no_tables = Terminate"
  using bad_prefix_terminates [of "\<lparr>raw_data = bad_prefix_at_2, index = 2\<rparr>" no_tables]
  by (simp add: bad_prefix_at_2_def)

end
